theory Spec2Isabelle
  imports Main
begin

section \<open>Strings and the string primitives the converter calls\<close>

text \<open>
  A string is a list of characters; a character stands for one code unit in the range
  U+0000 .. U+00FF. The white space of \<^verbatim>\<open>String.prototype.trim\<close> and of the regular
  expression class \<^verbatim>\<open>\s\<close> is, in that range: TAB, LF, VT, FF, CR, SPACE and NBSP.
\<close>

text \<open>ASCII white space, as the DOM standard strips and collapses it: TAB, LF, FF, CR, SPACE.\<close>

definition isAsciiWhitespace :: "char \<Rightarrow> bool" where
  "isAsciiWhitespace c \<longleftrightarrow> c \<in> set [CHR 0x09, CHR 0x0A, CHR 0x0C, CHR 0x0D, CHR 0x20]"

definition isWhiteSpace :: "char \<Rightarrow> bool" where
  "isWhiteSpace c \<longleftrightarrow>
     c \<in> set [CHR 0x09, CHR 0x0A, CHR 0x0B, CHR 0x0C, CHR 0x0D, CHR 0x20, CHR 0xA0]"

text \<open>\<^verbatim>\<open>s.trim()\<close>: white space removed at both ends.\<close>

definition trimBy :: "(char \<Rightarrow> bool) \<Rightarrow> string \<Rightarrow> string" where
  "trimBy ws s = rev (dropWhile ws (rev (dropWhile ws s)))"

definition trim :: "string \<Rightarrow> string" where
  "trim s = trimBy isWhiteSpace s"

text \<open>
  \<^verbatim>\<open>s.toLowerCase()\<close> on the code units of the model: A .. Z and the upper-case letters
  of U+00C0 .. U+00DE (all but the multiplication sign U+00D7) move up by 32.
\<close>

definition toLowerChar :: "char \<Rightarrow> char" where
  "toLowerChar c =
     (let n = (of_char c :: nat)
      in if (65 \<le> n \<and> n \<le> 90) \<or> (192 \<le> n \<and> n \<le> 222 \<and> n \<noteq> 215)
         then char_of (n + 32) else c)"

definition toLowerCase :: "string \<Rightarrow> string" where
  "toLowerCase s = map toLowerChar s"

text \<open>\<^verbatim>\<open>s.charAt(i)\<close>: the one-character string at index i, the empty string out of range.\<close>

definition charAt :: "string \<Rightarrow> nat \<Rightarrow> string" where
  "charAt s i = (if i < length s then [s ! i] else [])"

text \<open>
  \<^verbatim>\<open>parseInt(s)\<close>, with \<open>None\<close> for NaN: leading white space, an optional sign, then the
  longest run of decimal digits. (The prefix \<^verbatim>\<open>0x\<close> takes two characters; the converter
  only passes the result of \<^verbatim>\<open>charAt\<close>, so the hexadecimal branch is left out.)
\<close>

definition isDigit :: "char \<Rightarrow> bool" where
  "isDigit c \<longleftrightarrow> 48 \<le> (of_char c :: nat) \<and> (of_char c :: nat) \<le> 57"

definition digitsValue :: "string \<Rightarrow> int" where
  "digitsValue ds = foldl (\<lambda>a d. 10 * a + (int (of_char d) - 48)) 0 ds"

definition parseInt :: "string \<Rightarrow> int option" where
  "parseInt s =
     (let t = dropWhile isWhiteSpace s;
          neg = (t \<noteq> [] \<and> hd t = CHR ''-'');
          u = (if t \<noteq> [] \<and> (hd t = CHR ''-'' \<or> hd t = CHR ''+'') then tl t else t);
          ds = takeWhile isDigit u
      in if ds = [] then None
         else Some (if neg then - digitsValue ds else digitsValue ds))"

text \<open>
  \<^verbatim>\<open>s.repeat(count)\<close>: a NaN count is 0, a negative count raises RangeError.
\<close>

datatype error = RangeError | TypeError

definition repeat_js :: "string \<Rightarrow> int option \<Rightarrow> error + string" where
  "repeat_js s count =
     (case count of
        None \<Rightarrow> Inr []
      | Some n \<Rightarrow> if n < 0 then Inl RangeError else Inr (concat (replicate (nat n) s)))"

text \<open>\<^verbatim>\<open>s.replace(/\s+/g, " ")\<close>: every maximal run of white space becomes one space.\<close>

function collapseRuns :: "(char \<Rightarrow> bool) \<Rightarrow> string \<Rightarrow> string" where
  "collapseRuns ws [] = []"
| "collapseRuns ws (c # cs) =
     (if ws c then CHR '' '' # collapseRuns ws (dropWhile ws cs)
      else c # collapseRuns ws cs)"
  by pat_completeness auto
termination
  by (relation "measure (\<lambda>(ws, s). length s)") (auto simp: length_dropWhile_le le_imp_less_Suc)

definition collapseWhitespace :: "string \<Rightarrow> string" where
  "collapseWhitespace s = collapseRuns isWhiteSpace s"

text \<open>\<^verbatim>\<open>s.replace(/\|/g, "\\|")\<close>: a backslash before every vertical bar.\<close>

definition escapePipes :: "string \<Rightarrow> string" where
  "escapePipes s = concat (map (\<lambda>c. if c = CHR ''|'' then [CHR 0x5C, CHR ''|''] else [c]) s)"

text \<open>\<^verbatim>\<open>s.split("\n")\<close>: the pieces between line feeds; never an empty array.\<close>

fun splitLines :: "string \<Rightarrow> string list" where
  "splitLines [] = [[]]"
| "splitLines (c # cs) =
     (if c = CHR ''\<newline>'' then [] # splitLines cs
      else (case splitLines cs of [] \<Rightarrow> [[c]] | l # ls \<Rightarrow> (c # l) # ls))"

text \<open>\<^verbatim>\<open>xs.join(sep)\<close>.\<close>

fun join :: "string \<Rightarrow> string list \<Rightarrow> string" where
  "join sep [] = []"
| "join sep [x] = x"
| "join sep (x # y # ys) = x @ sep @ join sep (y # ys)"

section \<open>The document tree\<close>

text \<open>
  A node of the parsed document: an element with its tag name, its attributes in order
  and its child nodes in order; a text node with its data; or a comment (the node kind
  that is neither \<^verbatim>\<open>TEXT_NODE\<close> nor \<^verbatim>\<open>ELEMENT_NODE\<close>).
\<close>

datatype node =
    Element (tagName: string) (attributes: "(string \<times> string) list") (childNodes: "node list")
  | Text string
  | Comment string
where
  "childNodes (Text d) = []"
| "childNodes (Comment d) = []"
| "tagName (Text d) = []"
| "tagName (Comment d) = []"
| "attributes (Text d) = []"
| "attributes (Comment d) = []"

definition isElement :: "node \<Rightarrow> bool" where
  "isElement n = (case n of Element _ _ _ \<Rightarrow> True | _ \<Rightarrow> False)"

text \<open>\<^verbatim>\<open>el.getAttribute(name)\<close>: the first attribute of that name, \<open>None\<close> for null.\<close>

definition getAttribute :: "node \<Rightarrow> string \<Rightarrow> string option" where
  "getAttribute el name = map_of (attributes el) name"

text \<open>
  \<^verbatim>\<open>node.textContent\<close>: the data of a text or comment node; for an element the text
  content of its children in order, comments left out.
\<close>

fun textContent :: "node \<Rightarrow> string" where
  "textContent (Text d) = d"
| "textContent (Comment d) = d"
| "textContent (Element t a cs) =
     concat (map (\<lambda>c. case c of Comment _ \<Rightarrow> [] | _ \<Rightarrow> textContent c) cs)"

text \<open>The descendants of a node in tree order (the node itself is not one of them).\<close>

fun descendants :: "node \<Rightarrow> node list" where
  "descendants (Element t a cs) = concat (map (\<lambda>c. c # descendants c) cs)"
| "descendants (Text d) = []"
| "descendants (Comment d) = []"

text \<open>
  A selector that is a list of tag names (\<^verbatim>\<open>"td, th"\<close>): an element matches when its
  lower-cased tag name is one of them.
\<close>

definition matchesTag :: "string list \<Rightarrow> node \<Rightarrow> bool" where
  "matchesTag names n =
     (case n of Element t _ _ \<Rightarrow> toLowerCase t \<in> set names | _ \<Rightarrow> False)"

definition querySelectorAll :: "node \<Rightarrow> string list \<Rightarrow> node list" where
  "querySelectorAll el names = filter (matchesTag names) (descendants el)"

definition querySelector :: "node \<Rightarrow> string list \<Rightarrow> node option" where
  "querySelector el names =
     (case querySelectorAll el names of [] \<Rightarrow> None | n # _ \<Rightarrow> Some n)"

text \<open>\<^verbatim>\<open>getTextContent\<close>: the text content with white-space runs collapsed, trimmed.\<close>

definition getTextContent :: "node \<Rightarrow> string" where
  "getTextContent element = trim (collapseWhitespace (textContent element))"

section \<open>The converter\<close>

text \<open>
  \<^verbatim>\<open>ConversionOptions\<close>: three optional switches, \<open>None\<close> for a property that is not set.
\<close>

record ConversionOptions =
  preserveImages :: "bool option"
  preserveLinks :: "bool option"
  includeMetadata :: "bool option"

text \<open>The truth value of an optional switch in a condition, and its destructuring default.\<close>

definition truthy :: "bool option \<Rightarrow> bool" where
  "truthy b \<longleftrightarrow> b = Some True"

definition orFalse :: "bool option \<Rightarrow> bool" where
  "orFalse b = (case b of None \<Rightarrow> False | Some v \<Rightarrow> v)"

text \<open>The decimal digits of a number, as a template literal prints it.\<close>

fun showNat :: "nat \<Rightarrow> string" where
  "showNat n =
     (if n < 10 then [char_of (48 + n)] else showNat (n div 10) @ [char_of (48 + n mod 10)])"

subsection \<open>Tables\<close>

definition cellText :: "node \<Rightarrow> string" where
  "cellText cell = trim (escapePipes (getTextContent cell))"

text \<open>
  The body of \<^verbatim>\<open>rows.forEach((row, rowIndex) => ...)\<close>, with the string built so far
  passed along.
\<close>

fun convertTable_rows :: "node list \<Rightarrow> nat \<Rightarrow> string \<Rightarrow> string" where
  "convertTable_rows [] rowIndex result = result"
| "convertTable_rows (row # rest) rowIndex result =
     (let cells = querySelectorAll row [''td'', ''th''];
          cellTexts = map cellText cells;
          result1 = result @ ''| '' @ join '' | '' cellTexts @ '' |\<newline>'';
          result2 =
            (if rowIndex = 0 \<and> querySelector row [''th''] \<noteq> None
             then result1 @ ''| '' @ join '' | '' (map (\<lambda>_. ''---'') cellTexts) @ '' |\<newline>''
             else result1)
      in convertTable_rows rest (rowIndex + 1) result2)"

definition convertTable :: "node \<Rightarrow> ConversionOptions \<Rightarrow> string" where
  "convertTable tableElement options =
     (let rows = querySelectorAll tableElement [''tr'']
      in if length rows = 0 then []
         else convertTable_rows rows 0 ''\<newline>'' @ ''\<newline>'')"

subsection \<open>Elements, children and lists\<close>

text \<open>\<^verbatim>\<open>listElement.querySelectorAll(":scope > li")\<close>: the children that are li elements.\<close>

definition listItems :: "node list \<Rightarrow> node list" where
  "listItems cs = filter (matchesTag [''li'']) cs"

definition quoteLines :: "string \<Rightarrow> string" where
  "quoteLines quoteText =
     join ''\<newline>''
       (map (\<lambda>line. if trim line \<noteq> [] then ''> '' @ line else ''>'') (splitLines quoteText))"

text \<open>
  \<^verbatim>\<open>convertElement\<close>, the loop of \<^verbatim>\<open>convertChildren\<close> over the child nodes and the
  loop of \<^verbatim>\<open>convertList\<close> over the items, each loop with the string built so far.
  \<^verbatim>\<open>element.tagName\<close> is undefined on a node that is not an element, so
  \<^verbatim>\<open>.toLowerCase()\<close> raises TypeError there.
\<close>

function convertElement :: "node \<Rightarrow> nat \<Rightarrow> ConversionOptions \<Rightarrow> error + string"
  and convertChildren_loop ::
    "node list \<Rightarrow> nat \<Rightarrow> ConversionOptions \<Rightarrow> string \<Rightarrow> error + string"
  and convertList_loop ::
    "node list \<Rightarrow> nat \<Rightarrow> nat \<Rightarrow> ConversionOptions \<Rightarrow> bool \<Rightarrow> string \<Rightarrow> error + string"
where
  "convertElement (Text d) depth options = Inl TypeError"
| "convertElement (Comment d) depth options = Inl TypeError"
| "convertElement (Element tn attrs cs) depth options =
     (if toLowerCase tn \<in> set [''h1'', ''h2'', ''h3'', ''h4'', ''h5'', ''h6''] then
        (case repeat_js ''#'' (parseInt (charAt (toLowerCase tn) 1)) of
           Inl e \<Rightarrow> Inl e
         | Inr hashes \<Rightarrow>
             Inr (''\<newline>'' @ hashes @ '' '' @ getTextContent (Element tn attrs cs)
                  @ ''\<newline>\<newline>''))
      else if toLowerCase tn = ''p'' then
        (case convertChildren_loop cs depth options [] of
           Inl e \<Rightarrow> Inl e
         | Inr pText \<Rightarrow> Inr (if trim pText \<noteq> [] then pText @ ''\<newline>\<newline>'' else []))
      else if toLowerCase tn \<in> set [''div'', ''section'', ''article'', ''main''] then
        convertChildren_loop cs depth options []
      else if toLowerCase tn \<in> set [''ul'', ''ol''] then
        (case convertList_loop (listItems cs) 0 depth options (toLowerCase tn = ''ol'')
                ''\<newline>'' of
           Inl e \<Rightarrow> Inl e
         | Inr r \<Rightarrow> Inr (r @ ''\<newline>''))
      else if toLowerCase tn = ''li'' then Inr []
      else if toLowerCase tn = ''a'' then
        (if truthy (preserveLinks options) then
           (let href = getAttribute (Element tn attrs cs) ''href'';
                text = getTextContent (Element tn attrs cs)
            in if href \<noteq> None \<and> href \<noteq> Some [] \<and> text \<noteq> []
               then Inr (''['' @ text @ '']('' @ the href @ '')'')
               else Inr text)
         else Inr (getTextContent (Element tn attrs cs)))
      else if toLowerCase tn = ''img'' then
        (if truthy (preserveImages options) then
           (let src = getAttribute (Element tn attrs cs) ''src'';
                alt = (case getAttribute (Element tn attrs cs) ''alt'' of
                         None \<Rightarrow> [] | Some v \<Rightarrow> v)
            in if src \<noteq> None \<and> src \<noteq> Some []
               then Inr (''!['' @ alt @ '']('' @ the src @ '')'')
               else Inr [])
         else Inr [])
      else if toLowerCase tn \<in> set [''strong'', ''b''] then
        Inr (''**'' @ getTextContent (Element tn attrs cs) @ ''**'')
      else if toLowerCase tn \<in> set [''em'', ''i''] then
        Inr (''*'' @ getTextContent (Element tn attrs cs) @ ''*'')
      else if toLowerCase tn = ''code'' then
        Inr (''`'' @ getTextContent (Element tn attrs cs) @ ''`'')
      else if toLowerCase tn = ''pre'' then
        Inr (''\<newline>```\<newline>'' @ getTextContent (Element tn attrs cs)
             @ ''\<newline>```\<newline>\<newline>'')
      else if toLowerCase tn = ''blockquote'' then
        (case convertChildren_loop cs depth options [] of
           Inl e \<Rightarrow> Inl e
         | Inr quoteText \<Rightarrow> Inr (''\<newline>'' @ quoteLines quoteText @ ''\<newline>\<newline>''))
      else if toLowerCase tn = ''br'' then Inr ''\<newline>''
      else if toLowerCase tn = ''hr'' then Inr ''\<newline>---\<newline>\<newline>''
      else if toLowerCase tn = ''table'' then
        Inr (convertTable (Element tn attrs cs) options)
      else convertChildren_loop cs depth options [])"
| "convertChildren_loop [] depth options result = Inr result"
| "convertChildren_loop (child # rest) depth options result =
     (case child of
        Text d \<Rightarrow>
          convertChildren_loop rest depth options
            (if trim d \<noteq> [] then result @ trim d @ '' '' else result)
      | Element tn attrs cs \<Rightarrow>
          (case convertElement child (depth + 1) options of
             Inl e \<Rightarrow> Inl e
           | Inr s \<Rightarrow> convertChildren_loop rest depth options (result @ s))
      | Comment d \<Rightarrow> convertChildren_loop rest depth options result)"
| "convertList_loop [] index depth options isOrdered result = Inr result"
| "convertList_loop (item # rest) index depth options isOrdered result =
     (case convertChildren_loop (childNodes item) (depth + 1) options [] of
        Inl e \<Rightarrow> Inl e
      | Inr body \<Rightarrow>
          convertList_loop rest (index + 1) depth options isOrdered
            (result @ (if isOrdered then showNat (index + 1) @ ''. '' else ''- '')
                    @ trim body @ ''\<newline>''))"
  by pat_completeness auto
termination
proof -
  have items_le: "size_list size (filter P xs) \<le> size_list size xs"
    for P and xs :: "node list"
    by (induction xs) auto
  have kids_less: "size_list size (childNodes n) < Suc (size n + k)" for n :: node and k
    by (cases n) auto
  show ?thesis
    by (relation "measure (\<lambda>x. case x of
            Inl (n, _) \<Rightarrow> size n
          | Inr (Inl (cs, _)) \<Rightarrow> size_list size cs
          | Inr (Inr (items, _)) \<Rightarrow> size_list size items)")
       (auto simp: listItems_def le_imp_less_Suc items_le kids_less)
qed

definition convertChildren :: "node \<Rightarrow> nat \<Rightarrow> ConversionOptions \<Rightarrow> error + string" where
  "convertChildren element depth options =
     convertChildren_loop (childNodes element) depth options []"

definition convertList ::
    "node \<Rightarrow> nat \<Rightarrow> ConversionOptions \<Rightarrow> bool \<Rightarrow> error + string" where
  "convertList listElement depth options isOrdered =
     (case convertList_loop (listItems (childNodes listElement)) 0 depth options isOrdered
             ''\<newline>'' of
        Inl e \<Rightarrow> Inl e
      | Inr r \<Rightarrow> Inr (r @ ''\<newline>''))"

section \<open>The clean-up of the assembled text\<close>

text \<open>
  Each step of \<^verbatim>\<open>cleanupMdx\<close> is one regular-expression replacement, read from left to
  right: where the expression matches at the current position the match is replaced and
  the scan goes on behind it, elsewhere the character is kept.
\<close>

definition isNewline :: "char \<Rightarrow> bool" where
  "isNewline c \<longleftrightarrow> c = CHR ''\<newline>''"

text \<open>\<^verbatim>\<open>.replace(/\n{3,}/g, "\n\n")\<close>: a run of three or more line feeds becomes two.\<close>

function collapseNewlines :: "string \<Rightarrow> string" where
  "collapseNewlines [] = []"
| "collapseNewlines (c # cs) =
     (if isNewline c then
        (if length (c # takeWhile isNewline cs) \<ge> 3 then ''\<newline>\<newline>''
         else c # takeWhile isNewline cs)
        @ collapseNewlines (dropWhile isNewline cs)
      else c # collapseNewlines cs)"
  by pat_completeness auto
termination
  by (relation "measure length") (auto simp: length_dropWhile_le le_imp_less_Suc)

text \<open>
  \<^verbatim>\<open>.replace(/\n+#/g, "\n\n#")\<close>: a run of line feeds right before a \<^verbatim>\<open>#\<close> becomes two;
  a run before anything else stays.
\<close>

function padHeadings :: "string \<Rightarrow> string" where
  "padHeadings [] = []"
| "padHeadings (c # cs) =
     (if isNewline c then
        (if dropWhile isNewline cs \<noteq> [] \<and> hd (dropWhile isNewline cs) = CHR ''#''
         then ''\<newline>\<newline>#'' @ padHeadings (tl (dropWhile isNewline cs))
         else c # takeWhile isNewline cs @ padHeadings (dropWhile isNewline cs))
      else c # padHeadings cs)"
  by pat_completeness auto
termination
proof (relation "measure length")
  show "wf (measure length)" by simp
next
  fix c :: char and cs :: string
  have "length (tl (dropWhile isNewline cs)) \<le> length cs"
    using length_dropWhile_le [of isNewline cs] by simp
  then show "(tl (dropWhile isNewline cs), c # cs) \<in> measure length" by simp
next
  fix c :: char and cs :: string
  show "(dropWhile isNewline cs, c # cs) \<in> measure length"
    by (simp add: length_dropWhile_le le_imp_less_Suc)
next
  fix c :: char and cs :: string
  show "(cs, c # cs) \<in> measure length" by simp
qed

text \<open>
  \<^verbatim>\<open>.replace(/[ \t]+$/gm, "")\<close>: a run of spaces and tabs is dropped where the end of the
  text or a line terminator (LF or CR) follows it.
\<close>

definition isBlank :: "char \<Rightarrow> bool" where
  "isBlank c \<longleftrightarrow> c = CHR '' '' \<or> c = CHR 0x09"

definition isLineTerminator :: "char \<Rightarrow> bool" where
  "isLineTerminator c \<longleftrightarrow> c = CHR ''\<newline>'' \<or> c = CHR 0x0D"

function stripTrailing :: "string \<Rightarrow> string" where
  "stripTrailing [] = []"
| "stripTrailing (c # cs) =
     (if isBlank c then
        (if dropWhile isBlank cs = [] \<or> isLineTerminator (hd (dropWhile isBlank cs))
         then stripTrailing (dropWhile isBlank cs)
         else c # takeWhile isBlank cs @ stripTrailing (dropWhile isBlank cs))
      else c # stripTrailing cs)"
  by pat_completeness auto
termination
  by (relation "measure length") (auto simp: length_dropWhile_le le_imp_less_Suc)

text \<open>
  \<^verbatim>\<open>.replace(/\n*$/, "\n")\<close>: the first match is the run of line feeds at the end of the
  text (it may be empty); one line feed takes its place.
\<close>

definition ensureFinalNewline :: "string \<Rightarrow> string" where
  "ensureFinalNewline s = rev (dropWhile isNewline (rev s)) @ ''\<newline>''"

definition cleanupMdx :: "string \<Rightarrow> string" where
  "cleanupMdx mdx =
     trim (ensureFinalNewline (stripTrailing (padHeadings (collapseNewlines mdx))))"

section \<open>The document and the entry point\<close>

text \<open>
  The parsed document, as the entry point uses it: the child nodes of the document node.
  \<open>tagName\<close> holds what the DOM property returns in an HTML document: the name in upper
  case for an element of the HTML namespace, the name as the parser keeps it (lower or
  mixed case) for a foreign element (SVG, MathML).
\<close>

datatype document = Document (documentNodes: "node list")

text \<open>Every node below the document node, in tree order.\<close>

definition allNodes :: "document \<Rightarrow> node list" where
  "allNodes doc = concat (map (\<lambda>c. c # descendants c) (documentNodes doc))"

text \<open>
  \<^verbatim>\<open>doc.querySelectorAll("script, style, noscript").forEach((el) => el.remove())\<close>:
  every matching element leaves the tree, with all that is below it.
\<close>

definition isScriptLike :: "node \<Rightarrow> bool" where
  "isScriptLike n = matchesTag [''script'', ''style'', ''noscript''] n"

fun removeFrom :: "node \<Rightarrow> node" where
  "removeFrom (Element t a cs) =
     Element t a (map removeFrom (filter (\<lambda>c. \<not> isScriptLike c) cs))"
| "removeFrom (Text d) = Text d"
| "removeFrom (Comment d) = Comment d"

definition removeScriptsAndStyles :: "document \<Rightarrow> document" where
  "removeScriptsAndStyles doc =
     Document (map removeFrom (filter (\<lambda>c. \<not> isScriptLike c) (documentNodes doc)))"

text \<open>\<^verbatim>\<open>doc.documentElement\<close>: the first element child of the document, if there is one.\<close>

definition documentElement :: "document \<Rightarrow> node option" where
  "documentElement doc = find isElement (documentNodes doc)"

text \<open>
  \<^verbatim>\<open>doc.body\<close>: the first body or frameset child of the document element when that is
  an html element, else null.
\<close>

definition body :: "document \<Rightarrow> node option" where
  "body doc =
     (case documentElement doc of
        None \<Rightarrow> None
      | Some root \<Rightarrow>
          if toLowerCase (tagName root) = ''html''
          then find (matchesTag [''body'', ''frameset'']) (childNodes root)
          else None)"

text \<open>
  \<^verbatim>\<open>doc.title\<close>: the data of the text children of the first title element of the
  HTML namespace in tree order (the first element whose \<open>tagName\<close> is \<^verbatim>\<open>TITLE\<close>; an
  SVG title element has the \<open>tagName\<close> \<^verbatim>\<open>title\<close> and is passed over), ASCII white
  space stripped and collapsed; empty without such an element. (The other branch of the
  getter, for a document whose root is an SVG svg element, cannot be reached: the parser
  of \<^verbatim>\<open>text/html\<close> always makes an html root.)
\<close>

definition childTextContent :: "node \<Rightarrow> string" where
  "childTextContent n = concat (map (\<lambda>c. case c of Text d \<Rightarrow> d | _ \<Rightarrow> []) (childNodes n))"

definition isHtmlTitle :: "node \<Rightarrow> bool" where
  "isHtmlTitle n = (case n of Element t _ _ \<Rightarrow> t = ''TITLE'' | _ \<Rightarrow> False)"

definition title :: "document \<Rightarrow> string" where
  "title doc =
     (case find isHtmlTitle (allNodes doc) of
        None \<Rightarrow> []
      | Some t \<Rightarrow> trimBy isAsciiWhitespace (collapseRuns isAsciiWhitespace (childTextContent t)))"

text \<open>
  \<^verbatim>\<open>doc.querySelector('meta[name="description"]')?.getAttribute("content") || ""\<close>.
\<close>

definition metaDescription :: "document \<Rightarrow> string" where
  "metaDescription doc =
     (case find (\<lambda>n. matchesTag [''meta''] n \<and> getAttribute n ''name'' = Some ''description'')
             (allNodes doc) of
        None \<Rightarrow> []
      | Some m \<Rightarrow> (case getAttribute m ''content'' of None \<Rightarrow> [] | Some v \<Rightarrow> v))"

text \<open>The front-matter block; \<open>now\<close> is \<^verbatim>\<open>new Date().toISOString()\<close> at the call.\<close>

definition frontMatter :: "string \<Rightarrow> document \<Rightarrow> string" where
  "frontMatter now doc =
     (let title = (if title doc \<noteq> [] then title doc else ''Untitled'');
          description = metaDescription doc
      in ''---\<newline>''
         @ ''title: '' @ [CHR 0x22] @ title @ [CHR 0x22] @ ''\<newline>''
         @ (if description \<noteq> []
            then ''description: '' @ [CHR 0x22] @ description @ [CHR 0x22] @ ''\<newline>''
            else [])
         @ ''date: '' @ [CHR 0x22] @ now @ [CHR 0x22] @ ''\<newline>''
         @ ''---\<newline>\<newline>'')"

text \<open>
  \<^verbatim>\<open>htmlToMdx\<close>, from the parsed document on (the parser is the browser's). The guard
  \<^verbatim>\<open>if (!element) return ""\<close> of \<^verbatim>\<open>convertElement\<close> is the case of no body and no
  document element: only this call can pass null.
\<close>

definition htmlToMdx :: "string \<Rightarrow> document \<Rightarrow> ConversionOptions \<Rightarrow> error + string" where
  "htmlToMdx now parsed options =
     (let doc = removeScriptsAndStyles parsed;
          bodyContent = (case body doc of Some b \<Rightarrow> Some b | None \<Rightarrow> documentElement doc);
          mdx = (if orFalse (includeMetadata options) then frontMatter now doc else [])
      in case (case bodyContent of
                 None \<Rightarrow> Inr []
               | Some b \<Rightarrow>
                   convertElement b 0
                     \<lparr>preserveImages = Some (orFalse (preserveImages options)),
                      preserveLinks = Some (orFalse (preserveLinks options)),
                      includeMetadata = None\<rparr>) of
           Inl e \<Rightarrow> Inl e
         | Inr converted \<Rightarrow> Inr (cleanupMdx (mdx @ converted)))"

section \<open>Predicates for stating the properties\<close>

text \<open>
  What one child node contributes to the aggregation of its parent at the given depth:
  a text child its trimmed data and one space (nothing when the trimmed data is empty),
  an element child the string the formatter returns for it one level down, any other
  node nothing.
\<close>

definition childOutput :: "nat \<Rightarrow> ConversionOptions \<Rightarrow> node \<Rightarrow> string \<Rightarrow> bool" where
  "childOutput depth options child piece =
     (case child of
        Text d \<Rightarrow> piece = (if trim d \<noteq> [] then trim d @ '' '' else [])
      | Element _ _ _ \<Rightarrow> convertElement child (depth + 1) options = Inr piece
      | Comment _ \<Rightarrow> piece = [])"

text \<open>
  A text is collapsed when its only white space is the plain space, no two spaces are
  adjacent, and it neither starts nor ends with white space.
\<close>

fun noDoubleSpace :: "string \<Rightarrow> bool" where
  "noDoubleSpace (a # b # r) = (\<not> (a = CHR '' '' \<and> b = CHR '' '') \<and> noDoubleSpace (b # r))"
| "noDoubleSpace [a] = True"
| "noDoubleSpace [] = True"

definition collapsedText :: "string \<Rightarrow> bool" where
  "collapsedText t \<longleftrightarrow>
     list_all (\<lambda>c. isWhiteSpace c \<longrightarrow> c = CHR '' '') t \<and> noDoubleSpace t \<and>
     (t = [] \<or> (\<not> isWhiteSpace (hd t) \<and> \<not> isWhiteSpace (last t)))"

text \<open>
  Two trees that differ at most below script, style and noscript elements: the same
  node kinds, tag names, attributes and text everywhere else, and any children at all
  (none included) below an element of one of these three tags.
\<close>

fun sameOutsideScripts :: "node \<Rightarrow> node \<Rightarrow> bool" where
  "sameOutsideScripts (Element t a cs) (Element t' a' cs') =
     (t = t' \<and> a = a' \<and>
      (if isScriptLike (Element t a cs) then True else list_all2 sameOutsideScripts cs cs'))"
| "sameOutsideScripts (Text d) (Text d') = (d = d')"
| "sameOutsideScripts (Comment d) (Comment d') = (d = d')"
| "sameOutsideScripts _ _ = False"

text \<open>
  The table as the specification words it, written without the functions of the
  converter. The rows of a table are all its tr descendants in document order and the
  cells of a row all its td and th descendants in document order (descendants at any
  depth, so the rows and cells of a table nested in a cell count as well). The text of
  a cell is its flattened text (the data of all descendant text nodes in document order,
  every run of white space collapsed to one space, trimmed), with a backslash put before
  every vertical bar, trimmed. A line is the texts joined by \<^verbatim>\<open> | \<close> between
  \<^verbatim>\<open>| \<close> and \<^verbatim>\<open> |\<close> and a line feed; the separator line has \<^verbatim>\<open>---\<close> for every cell of
  the row.
\<close>

definition textData :: "node \<Rightarrow> string" where
  "textData n = (case n of Text d \<Rightarrow> d | _ \<Rightarrow> [])"

definition spec_descendantText :: "node \<Rightarrow> string" where
  "spec_descendantText n = concat (map textData (descendants n))"

fun spec_collapse :: "string \<Rightarrow> string" where
  "spec_collapse [] = []"
| "spec_collapse [c] = (if isWhiteSpace c then '' '' else [c])"
| "spec_collapse (c # d # r) =
     (if isWhiteSpace c
      then (if isWhiteSpace d then spec_collapse (d # r) else CHR '' '' # spec_collapse (d # r))
      else c # spec_collapse (d # r))"

fun spec_dropTrailing :: "string \<Rightarrow> string" where
  "spec_dropTrailing [] = []"
| "spec_dropTrailing (c # cs) =
     (if list_all isWhiteSpace (c # cs) then [] else c # spec_dropTrailing cs)"

definition spec_trim :: "string \<Rightarrow> string" where
  "spec_trim s = spec_dropTrailing (dropWhile isWhiteSpace s)"

definition spec_flattenedText :: "node \<Rightarrow> string" where
  "spec_flattenedText n = spec_trim (spec_collapse (spec_descendantText n))"

fun spec_escapePipes :: "string \<Rightarrow> string" where
  "spec_escapePipes [] = []"
| "spec_escapePipes (c # cs) =
     (if c = CHR ''|'' then CHR 0x5C # CHR ''|'' # spec_escapePipes cs
      else c # spec_escapePipes cs)"

definition spec_cellText :: "node \<Rightarrow> string" where
  "spec_cellText cell = spec_trim (spec_escapePipes (spec_flattenedText cell))"

definition spec_rows :: "node \<Rightarrow> node list" where
  "spec_rows tableElement = filter (matchesTag [''tr'']) (descendants tableElement)"

definition spec_cells :: "node \<Rightarrow> node list" where
  "spec_cells row = filter (matchesTag [''td'', ''th'']) (descendants row)"

definition spec_pipeLine :: "string list \<Rightarrow> string" where
  "spec_pipeLine texts =
     ''| '' @ (case texts of [] \<Rightarrow> [] | t # ts \<Rightarrow> t @ concat (map (\<lambda>u. '' | '' @ u) ts))
     @ '' |\<newline>''"

definition spec_rowLine :: "node \<Rightarrow> string" where
  "spec_rowLine row = spec_pipeLine (map spec_cellText (spec_cells row))"

definition spec_separatorLine :: "node \<Rightarrow> string" where
  "spec_separatorLine row = spec_pipeLine (replicate (length (spec_cells row)) ''---'')"

definition spec_hasHeaderCell :: "node \<Rightarrow> bool" where
  "spec_hasHeaderCell row = list_ex (matchesTag [''th'']) (spec_cells row)"

definition spec_table :: "node \<Rightarrow> string" where
  "spec_table tableElement =
     (case spec_rows tableElement of
        [] \<Rightarrow> []
      | first # others \<Rightarrow>
          ''\<newline>'' @ spec_rowLine first
          @ (if spec_hasHeaderCell first then spec_separatorLine first else [])
          @ concat (map spec_rowLine others) @ ''\<newline>'')"

section \<open>The conversion never raises\<close>

declare convertElement.simps(3) [simp del]

text \<open>
  The dispatcher calls the two loops directly; these are its calls of
  \<^verbatim>\<open>convertChildren\<close> and \<^verbatim>\<open>convertList\<close> on the element itself.
\<close>

lemma convertElement_list_rule:
  assumes "toLowerCase tn \<in> set [''ul'', ''ol'']"
  shows "convertElement (Element tn attrs cs) depth options
         = convertList (Element tn attrs cs) depth options (toLowerCase tn = ''ol'')"
  using assms by (auto simp: convertElement.simps(3) convertList_def)

lemma convertElement_transparent_rule:
  assumes "toLowerCase tn \<in> set [''div'', ''section'', ''article'', ''main'']"
  shows "convertElement (Element tn attrs cs) depth options
         = convertChildren (Element tn attrs cs) depth options"
  using assms by (auto simp: convertElement.simps(3) convertChildren_def)

lemma convertElement_default_rule:
  assumes "toLowerCase tn \<notin> set [''h1'', ''h2'', ''h3'', ''h4'', ''h5'', ''h6'', ''p'', ''div'',
      ''section'', ''article'', ''main'', ''ul'', ''ol'', ''li'', ''a'', ''img'', ''strong'', ''b'',
      ''em'', ''i'', ''code'', ''pre'', ''blockquote'', ''br'', ''hr'', ''table'']"
  shows "convertElement (Element tn attrs cs) depth options
         = convertChildren (Element tn attrs cs) depth options"
  using assms by (simp add: convertElement.simps(3) convertChildren_def)

lemma matchesTag_isElement: "matchesTag names n \<Longrightarrow> isElement n"
  by (cases n) (simp_all add: matchesTag_def isElement_def)

lemma heading_level:
  assumes "t \<in> set [''h1'', ''h2'', ''h3'', ''h4'', ''h5'', ''h6'']"
  shows "\<exists>k. parseInt (charAt t 1) = Some k \<and> 1 \<le> k \<and> k \<le> 6"
proof -
  have "parseInt (charAt ''h1'' 1) = Some 1" "parseInt (charAt ''h2'' 1) = Some 2"
    "parseInt (charAt ''h3'' 1) = Some 3" "parseInt (charAt ''h4'' 1) = Some 4"
    "parseInt (charAt ''h5'' 1) = Some 5" "parseInt (charAt ''h6'' 1) = Some 6"
    by code_simp+
  with assms show ?thesis by auto
qed

lemma heading_hashes:
  assumes "t \<in> set [''h1'', ''h2'', ''h3'', ''h4'', ''h5'', ''h6'']"
  shows "\<exists>h. repeat_js ''#'' (parseInt (charAt t 1)) = Inr h"
proof -
  from heading_level [OF assms] obtain k where "parseInt (charAt t 1) = Some k" "1 \<le> k"
    by blast
  then show ?thesis by (simp add: repeat_js_def)
qed

lemma convertChildren_loop_total:
  assumes "\<And>c d. c \<in> set cs \<Longrightarrow> isElement c \<Longrightarrow> \<exists>s. convertElement c d options = Inr s"
  shows "\<exists>s. convertChildren_loop cs depth options result = Inr s"
  using assms
proof (induction cs arbitrary: result)
  case Nil
  show ?case by simp
next
  case (Cons child rest)
  show ?case
  proof (cases child)
    case (Element tn attrs gs)
    then have "isElement child" by (simp add: isElement_def)
    with Cons.prems [of child "depth + 1"] obtain s
      where s: "convertElement child (depth + 1) options = Inr s" by auto
    from Cons.IH [of "result @ s"] Cons.prems
    obtain r where "convertChildren_loop rest depth options (result @ s) = Inr r"
      by auto
    with s Element show ?thesis by simp
  next
    case (Text d)
    from Cons.IH [of "if trim d \<noteq> [] then result @ trim d @ '' '' else result"] Cons.prems
    show ?thesis using Text by auto
  next
    case (Comment d)
    from Cons.IH [of result] Cons.prems show ?thesis using Comment by auto
  qed
qed

lemma convertList_loop_total:
  assumes "\<And>item d. item \<in> set items \<Longrightarrow>
             \<exists>s. convertChildren_loop (childNodes item) d options [] = Inr s"
  shows "\<exists>s. convertList_loop items index depth options isOrdered result = Inr s"
  using assms
proof (induction items arbitrary: index result)
  case Nil
  show ?case by simp
next
  case (Cons item rest)
  from Cons.prems [of item "depth + 1"] obtain b
    where b: "convertChildren_loop (childNodes item) (depth + 1) options [] = Inr b" by auto
  from Cons.IH Cons.prems
  have "\<exists>s. convertList_loop rest (index + 1) depth options isOrdered
          (result @ (if isOrdered then showNat (index + 1) @ ''. '' else ''- '')
                  @ trim b @ ''\<newline>'') = Inr s"
    by simp
  with b show ?case by simp
qed

lemma convertElement_total_aux:
  "(isElement n \<longrightarrow> (\<forall>d. \<exists>s. convertElement n d options = Inr s)) \<and>
   (\<forall>d r. \<exists>s. convertChildren_loop (childNodes n) d options r = Inr s)"
proof (induction n)
  case (Element tn attrs cs)
  have kids: "\<exists>s. convertChildren_loop cs d options r = Inr s" for d r
    by (rule convertChildren_loop_total) (use Element.IH in blast)
  have items: "\<exists>s. convertList_loop (listItems cs) i d options ord r = Inr s" for i d ord r
    by (rule convertList_loop_total) (use Element.IH in \<open>auto simp: listItems_def\<close>)
  have "\<exists>s. convertElement (Element tn attrs cs) d options = Inr s" for d
  proof -
    obtain k where k: "convertChildren_loop cs d options [] = Inr k" using kids by blast
    obtain l where l: "convertList_loop (listItems cs) 0 d options (toLowerCase tn = ''ol'')
          ''\<newline>'' = Inr l" using items by blast
    show ?thesis
    proof (cases "toLowerCase tn \<in> set [''h1'', ''h2'', ''h3'', ''h4'', ''h5'', ''h6'']")
      case True
      from heading_hashes [OF True] obtain h
        where "repeat_js ''#'' (parseInt (charAt (toLowerCase tn) 1)) = Inr h" by blast
      with True show ?thesis by (simp add: convertElement.simps(3))
    next
      case False
      with k l show ?thesis by (simp add: convertElement.simps(3) Let_def)
    qed
  qed
  with kids show ?case by simp
next
  case (Text d)
  show ?case by (simp add: isElement_def)
next
  case (Comment d)
  show ?case by (simp add: isElement_def)
qed

lemma convertElement_total:
  "isElement n \<Longrightarrow> \<exists>s. convertElement n depth options = Inr s"
  using convertElement_total_aux [of n options] by blast

lemma bodyContent_isElement:
  assumes "(case body doc of Some b \<Rightarrow> Some b | None \<Rightarrow> documentElement doc) = Some b"
  shows "isElement b"
proof (cases "body doc")
  case None
  with assms have "find isElement (documentNodes doc) = Some b"
    by (simp add: documentElement_def)
  then show ?thesis by (auto simp: find_Some_iff)
next
  case (Some b')
  with assms have "b' = b" by simp
  with Some have "\<exists>root. find (matchesTag [''body'', ''frameset'']) (childNodes root) = Some b"
    by (auto simp: body_def split: option.splits if_splits)
  then show ?thesis by (auto simp: find_Some_iff intro: matchesTag_isElement)
qed

text \<open>
  C8. The conversion is total: for every document tree and every options value the entry
  point returns a string and raises no error, whatever the shape of the tree (no body,
  no document element, unknown tags, missing attributes, empty lists and tables). The
  recursion of the formatter is well-founded on the size of the tree.
\<close>

theorem htmlToMdx_total: "\<exists>s. htmlToMdx now parsed options = Inr s"
proof -
  let ?doc = "removeScriptsAndStyles parsed"
  let ?bodyContent = "case body ?doc of Some b \<Rightarrow> Some b | None \<Rightarrow> documentElement ?doc"
  let ?inner = "\<lparr>preserveImages = Some (orFalse (preserveImages options)),
     preserveLinks = Some (orFalse (preserveLinks options)),
     includeMetadata = None\<rparr>"
  have "\<exists>s. (case ?bodyContent of None \<Rightarrow> Inr [] | Some b \<Rightarrow> convertElement b 0 ?inner) = Inr s"
  proof (cases ?bodyContent)
    case None
    then show ?thesis by simp
  next
    case (Some b)
    then have "isElement b" by (rule bodyContent_isElement)
    from convertElement_total [OF this] Some show ?thesis by simp
  qed
  then obtain s
    where "(case ?bodyContent of None \<Rightarrow> Inr [] | Some b \<Rightarrow> convertElement b 0 ?inner) = Inr s"
    by blast
  then show ?thesis
    by (simp add: htmlToMdx_def Let_def)
qed

section \<open>White space at the ends\<close>

lemma dropEnd_prefix: "\<exists>ys. xs = rev (dropWhile P (rev xs)) @ ys"
proof -
  have "rev xs = takeWhile P (rev xs) @ dropWhile P (rev xs)" by simp
  then have "rev (rev xs) = rev (takeWhile P (rev xs) @ dropWhile P (rev xs))" by simp
  then have "xs = rev (dropWhile P (rev xs)) @ rev (takeWhile P (rev xs))"
    by (simp only: rev_rev_ident rev_append)
  then show ?thesis ..
qed

lemma dropEnd_last:
  "rev (dropWhile P (rev xs)) \<noteq> [] \<Longrightarrow> \<not> P (last (rev (dropWhile P (rev xs))))"
  using hd_dropWhile [of P "rev xs"] by (simp add: last_rev)

lemma trimBy_ends:
  "trimBy ws s = [] \<or> (\<not> ws (hd (trimBy ws s)) \<and> \<not> ws (last (trimBy ws s)))"
proof -
  let ?m = "dropWhile ws s"
  let ?t = "rev (dropWhile ws (rev ?m))"
  obtain ys where ys: "?m = ?t @ ys" using dropEnd_prefix [of ?m ws] by blast
  have t: "trimBy ws s = ?t" by (simp add: trimBy_def)
  have "?t = [] \<or> (\<not> ws (hd ?t) \<and> \<not> ws (last ?t))"
  proof (cases "?t = []")
    case True
    then show ?thesis by simp
  next
    case False
    then have "hd ?t = hd ?m" using ys by (metis hd_append2)
    moreover have "?m \<noteq> []"
    proof
      assume e: "?m = []"
      have "?t = []" unfolding e by simp
      with False show False by contradiction
    qed
    then have "\<not> ws (hd ?m)" using hd_dropWhile [of ws s] by simp
    moreover have "\<not> ws (last ?t)" using dropEnd_last [OF False] .
    ultimately show ?thesis by simp
  qed
  then show ?thesis by (simp only: t)
qed

text \<open>
  The last step of the clean-up is \<^verbatim>\<open>.trim()\<close>, so the cleaned text never ends with
  white space; a line feed is white space.
\<close>

lemma cleanupMdx_last_not_newline:
  "cleanupMdx mdx = [] \<or> last (cleanupMdx mdx) \<noteq> CHR ''\<newline>''"
proof -
  have nl: "isWhiteSpace (CHR ''\<newline>'')" by (simp add: isWhiteSpace_def)
  let ?x = "ensureFinalNewline (stripTrailing (padHeadings (collapseNewlines mdx)))"
  from trimBy_ends [of isWhiteSpace ?x] nl show ?thesis
    by (auto simp: cleanupMdx_def trim_def)
qed

section \<open>The clean-up at concrete inputs\<close>

text \<open>
  C2. The claim: the returned string ends with exactly one line feed. At the document
  \<^verbatim>\<open><html><head></head><body><p>Hello</p></body></html>\<close> the returned string is
  \<^verbatim>\<open>Hello\<close>, with no line feed at its end: the final \<^verbatim>\<open>.trim()\<close> removes the one
  that the step before it has put there.
\<close>

theorem htmlToMdx_hello_no_final_newline:
  "htmlToMdx ''2026-01-01T00:00:00.000Z''
     (Document [Element ''HTML'' []
        [Element ''HEAD'' [] [], Element ''BODY'' [] [Element ''P'' [] [Text ''Hello'']]]])
     \<lparr>preserveImages = None, preserveLinks = None, includeMetadata = None\<rparr>
   = Inr ''Hello''"
  by code_simp

text \<open>
  C4. The claim: the returned string never holds three line feeds in a row. At a body
  whose only child is the text \<^verbatim>\<open>a\n \n \nb\<close> the returned string is \<^verbatim>\<open>a\n\n\nb\<close>:
  the runs of line feeds are collapsed first, and the later removal of the blanks at the
  line ends joins three line feeds again.
\<close>

theorem htmlToMdx_blank_lines_three_newlines:
  "htmlToMdx ''2026-01-01T00:00:00.000Z''
     (Document [Element ''HTML'' []
        [Element ''HEAD'' [] [],
         Element ''BODY'' [] [Text ''a\<newline> \<newline> \<newline>b'']]])
     \<lparr>preserveImages = None, preserveLinks = None, includeMetadata = None\<rparr>
   = Inr ''a\<newline>\<newline>\<newline>b''"
  by code_simp

text \<open>
  C5. The claim: the clean-up applied to its own result changes nothing. At the string
  \<^verbatim>\<open>a\n \n \nb\<close> the first application gives \<^verbatim>\<open>a\n\n\nb\<close> and the second gives
  \<^verbatim>\<open>a\n\nb\<close>.
\<close>

theorem cleanupMdx_twice_differs:
  "cleanupMdx ''a\<newline> \<newline> \<newline>b'' = ''a\<newline>\<newline>\<newline>b'' \<and>
   cleanupMdx (cleanupMdx ''a\<newline> \<newline> \<newline>b'') = ''a\<newline>\<newline>b''"
  by code_simp

section \<open>The depth counter\<close>

lemma convertChildren_loop_depth:
  assumes "\<And>c d d'. c \<in> set cs \<Longrightarrow> convertElement c d options = convertElement c d' options"
  shows "convertChildren_loop cs d1 options result = convertChildren_loop cs d2 options result"
  using assms
proof (induction cs arbitrary: result)
  case Nil
  show ?case by simp
next
  case (Cons child rest)
  have step: "convertElement child (Suc d1) options = convertElement child (Suc d2) options"
    by (rule Cons.prems) simp
  have rest: "convertChildren_loop rest d1 options r = convertChildren_loop rest d2 options r"
    for r by (rule Cons.IH) (rule Cons.prems, simp)
  show ?case
  proof (cases child)
    case (Element tn attrs gs)
    with step show ?thesis
      by (cases "convertElement (Element tn attrs gs) (Suc d2) options") (simp_all add: rest)
  next
    case (Text d)
    then show ?thesis by (simp add: rest)
  next
    case (Comment d)
    then show ?thesis by (simp add: rest)
  qed
qed

lemma convertList_loop_depth:
  assumes "\<And>item d d'. item \<in> set items \<Longrightarrow>
             convertChildren_loop (childNodes item) d options []
             = convertChildren_loop (childNodes item) d' options []"
  shows "convertList_loop items index d1 options isOrdered result
         = convertList_loop items index d2 options isOrdered result"
  using assms
proof (induction items arbitrary: index result)
  case Nil
  show ?case by simp
next
  case (Cons item rest)
  have step: "convertChildren_loop (childNodes item) (Suc d1) options []
              = convertChildren_loop (childNodes item) (Suc d2) options []"
    by (rule Cons.prems) simp
  have rest: "convertList_loop rest i d1 options isOrdered r
              = convertList_loop rest i d2 options isOrdered r" for i r
    by (rule Cons.IH) (rule Cons.prems, simp)
  show ?case
    by (cases "convertChildren_loop (childNodes item) (Suc d2) options []")
      (simp_all add: step rest)
qed

lemma convertElement_depth_aux:
  "(\<forall>d d'. convertElement n d options = convertElement n d' options) \<and>
   (\<forall>d d' r. convertChildren_loop (childNodes n) d options r
             = convertChildren_loop (childNodes n) d' options r)"
proof (induction n)
  case (Element tn attrs cs)
  have kids: "convertChildren_loop cs d options r = convertChildren_loop cs d' options r"
    for d d' r
    by (rule convertChildren_loop_depth) (use Element.IH in blast)
  have items: "convertList_loop (listItems cs) i d options ord r
               = convertList_loop (listItems cs) i d' options ord r" for i d d' ord r
  proof (rule convertList_loop_depth)
    fix item d d'
    assume "item \<in> set (listItems cs)"
    then have "item \<in> set cs" by (simp add: listItems_def)
    from Element.IH [OF this]
    show "convertChildren_loop (childNodes item) d options []
          = convertChildren_loop (childNodes item) d' options []"
      by blast
  qed
  have self: "convertElement (Element tn attrs cs) d options
        = convertElement (Element tn attrs cs) d' options" for d d'
    unfolding convertElement.simps(3) kids [of d "[]" d']
      items [of 0 d "toLowerCase tn = ''ol''" "''\<newline>''" d']
    by (rule refl)
  show ?case
  proof (intro conjI allI)
    fix d d' r
    show "convertElement (Element tn attrs cs) d options
          = convertElement (Element tn attrs cs) d' options"
      by (rule self)
    show "convertChildren_loop (childNodes (Element tn attrs cs)) d options r
          = convertChildren_loop (childNodes (Element tn attrs cs)) d' options r"
      unfolding node.sel by (rule kids)
  qed
next
  case (Text d)
  show ?case by simp
next
  case (Comment d)
  show ?case by simp
qed

lemma convertList_depth:
  "convertList el d1 options isOrdered = convertList el d2 options isOrdered"
proof -
  have "convertList_loop (listItems (childNodes el)) 0 d1 options isOrdered ''\<newline>''
        = convertList_loop (listItems (childNodes el)) 0 d2 options isOrdered ''\<newline>''"
  proof (rule convertList_loop_depth)
    fix item d d'
    from convertElement_depth_aux [of item options]
    show "convertChildren_loop (childNodes item) d options []
          = convertChildren_loop (childNodes item) d' options []"
      by blast
  qed
  then show ?thesis by (simp only: convertList_def)
qed

text \<open>
  C10. The depth counter never influences the output: for every element, every options
  value and any two depths, \<^verbatim>\<open>convertElement\<close> returns the same string at both depths,
  and so do \<^verbatim>\<open>convertChildren\<close> and \<^verbatim>\<open>convertList\<close>; no depth makes the formatter
  fail, so no bound on the depth is enforced.
\<close>

theorem depth_never_influences_output:
  assumes "isElement el"
  shows "convertElement el d1 options = convertElement el d2 options \<and>
         convertChildren el d1 options = convertChildren el d2 options \<and>
         convertList el d1 options isOrdered = convertList el d2 options isOrdered \<and>
         (\<exists>s. convertElement el d1 options = Inr s) \<and>
         (\<exists>s. convertElement el d2 options = Inr s)"
proof -
  from convertElement_depth_aux [of el options]
  have "convertElement el d1 options = convertElement el d2 options"
    and "convertChildren_loop (childNodes el) d1 options []
         = convertChildren_loop (childNodes el) d2 options []"
    by blast+
  moreover note convertList_depth [of el d1 options isOrdered d2]
    convertElement_total [OF assms, of d1 options] convertElement_total [OF assms, of d2 options]
  ultimately show ?thesis by (simp only: convertChildren_def simp_thms)
qed

theorem depth_never_influences_output_witness:
  "isElement (Element ''ul'' [] [Element ''li'' [] [Text ''A''], Element ''li'' [] [Text ''B'']]) \<and>
   convertElement (Element ''ul'' [] [Element ''li'' [] [Text ''A''], Element ''li'' [] [Text ''B'']]) 0
       \<lparr>preserveImages = Some False, preserveLinks = Some False, includeMetadata = None\<rparr>
     = convertElement (Element ''ul'' [] [Element ''li'' [] [Text ''A''], Element ''li'' [] [Text ''B'']]) 9
       \<lparr>preserveImages = Some False, preserveLinks = Some False, includeMetadata = None\<rparr>"
proof -
  have e: "isElement (Element ''ul'' [] [Element ''li'' [] [Text ''A''], Element ''li'' [] [Text ''B'']])"
    by (simp add: isElement_def)
  from depth_never_influences_output [OF e, of 0
      "\<lparr>preserveImages = Some False, preserveLinks = Some False, includeMetadata = None\<rparr>" 9]
    e
  show ?thesis by blast
qed

section \<open>Child aggregation\<close>

lemma convertChildren_loop_pieces:
  "\<exists>pieces. list_all2 (childOutput depth options) cs pieces \<and>
     convertChildren_loop cs depth options result = Inr (result @ concat pieces)"
proof (induction cs arbitrary: result)
  case Nil
  show ?case by simp
next
  case (Cons child rest)
  show ?case
  proof (cases child)
    case (Element tn attrs gs)
    then have "isElement child" by (simp add: isElement_def)
    from convertElement_total [OF this] obtain s
      where s: "convertElement child (Suc depth) options = Inr s" by blast
    from Cons.IH [of "result @ s"] obtain pieces
      where p: "list_all2 (childOutput depth options) rest pieces"
        and r: "convertChildren_loop rest depth options (result @ s)
                = Inr ((result @ s) @ concat pieces)" by blast
    have "list_all2 (childOutput depth options) (child # rest) (s # pieces)"
      using p s Element by (simp add: childOutput_def)
    moreover have "convertChildren_loop (child # rest) depth options result
        = Inr (result @ concat (s # pieces))"
      using r s Element by simp
    ultimately show ?thesis by blast
  next
    case (Text d)
    let ?piece = "if trim d \<noteq> [] then trim d @ '' '' else []"
    from Cons.IH [of "result @ ?piece"] obtain pieces
      where p: "list_all2 (childOutput depth options) rest pieces"
        and r: "convertChildren_loop rest depth options (result @ ?piece)
                = Inr ((result @ ?piece) @ concat pieces)" by blast
    have "list_all2 (childOutput depth options) (child # rest) (?piece # pieces)"
      using p Text by (simp add: childOutput_def)
    moreover have "convertChildren_loop (child # rest) depth options result
        = Inr (result @ concat (?piece # pieces))"
      using r Text by (cases "trim d = []") simp_all
    ultimately show ?thesis by blast
  next
    case (Comment d)
    from Cons.IH [of result] obtain pieces
      where p: "list_all2 (childOutput depth options) rest pieces"
        and r: "convertChildren_loop rest depth options result
                = Inr (result @ concat pieces)" by blast
    have "list_all2 (childOutput depth options) (child # rest) ([] # pieces)"
      using p Comment by (simp add: childOutput_def)
    moreover have "convertChildren_loop (child # rest) depth options result
        = Inr (result @ concat ([] # pieces))"
      using r Comment by simp
    ultimately show ?thesis by blast
  qed
qed

text \<open>
  C3, as the claim states it, fails: the text child \<^verbatim>\<open>a  b\<close> (two spaces inside) of a
  paragraph is appended as \<^verbatim>\<open>a  b \<close>, not as the collapsed \<^verbatim>\<open>a b \<close>.
\<close>

theorem convertChildren_collapse_counterexample:
  "convertChildren (Element ''p'' [] [Text ''a  b'']) 0
     \<lparr>preserveImages = Some False, preserveLinks = Some False, includeMetadata = None\<rparr>
   \<noteq> Inr (trim (collapseWhitespace ''a  b'') @ '' '')"
  by code_simp

text \<open>
  C3, amended. In child aggregation every child contributes one piece, and the result is
  the pieces in document order: a text child is trimmed only (white space inside it is
  kept as it is) and, when the trimmed text is not empty, appended with one space after
  it; an element child contributes exactly what the formatter returns for it one level
  down; any other node contributes nothing.
\<close>

theorem convertChildren_pieces:
  "\<exists>pieces. list_all2 (childOutput depth options) (childNodes element) pieces \<and>
     convertChildren element depth options = Inr (concat pieces)"
  using convertChildren_loop_pieces [of depth options "childNodes element" "[]"]
  by (simp add: convertChildren_def)

section \<open>Flattened text and the fenced block\<close>

lemma collapseRuns_chars:
  "list_all (\<lambda>c. ws c \<longrightarrow> c = CHR '' '') (collapseRuns ws s)"
proof (induction ws s rule: collapseRuns.induct)
  case (1 ws)
  show ?case by simp
next
  case (2 ws c cs)
  then show ?case by simp
qed

lemma collapseRuns_noDoubleSpace:
  assumes "ws (CHR '' '')"
  shows "noDoubleSpace (collapseRuns ws s)"
  using assms
proof (induction ws s rule: collapseRuns.induct)
  case (1 ws)
  show ?case by simp
next
  case (2 ws c cs)
  show ?case
  proof (cases "ws c")
    case True
    show ?thesis
    proof (cases "dropWhile ws cs")
      case Nil
      then have "collapseRuns ws (dropWhile ws cs) = []" by (simp only: collapseRuns.simps)
      with True show ?thesis by simp
    next
      case (Cons d r)
      then have nd: "\<not> ws d" using hd_dropWhile [of ws cs] by simp
      with "2.prems" have "d \<noteq> CHR '' ''" by auto
      moreover from "2.IH"(1) [OF True "2.prems"] Cons nd
      have "noDoubleSpace (d # collapseRuns ws r)" by simp
      ultimately show ?thesis using True Cons nd by simp
    qed
  next
    case False
    with "2.prems" have c: "c \<noteq> CHR '' ''" by auto
    from "2.IH"(2) [OF False "2.prems"] have "noDoubleSpace (collapseRuns ws cs)" .
    with c False show ?thesis by (cases "collapseRuns ws cs") simp_all
  qed
qed

lemma noDoubleSpace_tl: "noDoubleSpace (a # xs) \<Longrightarrow> noDoubleSpace xs"
  by (cases xs) simp_all

lemma noDoubleSpace_dropWhile: "noDoubleSpace xs \<Longrightarrow> noDoubleSpace (dropWhile P xs)"
  by (induction xs) (auto dest: noDoubleSpace_tl)

lemma noDoubleSpace_prefix: "noDoubleSpace (xs @ ys) \<Longrightarrow> noDoubleSpace xs"
  by (induction xs rule: noDoubleSpace.induct) auto

lemma trimBy_collapsed:
  assumes chars: "list_all (\<lambda>c. ws c \<longrightarrow> c = CHR '' '') s" and nds: "noDoubleSpace s"
  shows "list_all (\<lambda>c. ws c \<longrightarrow> c = CHR '' '') (trimBy ws s) \<and> noDoubleSpace (trimBy ws s) \<and>
         (trimBy ws s = [] \<or> (\<not> ws (hd (trimBy ws s)) \<and> \<not> ws (last (trimBy ws s))))"
proof -
  let ?m = "dropWhile ws s"
  let ?t = "rev (dropWhile ws (rev ?m))"
  obtain ys where ys: "?m = ?t @ ys" using dropEnd_prefix [of ?m ws] by blast
  have t: "trimBy ws s = ?t" by (simp add: trimBy_def)
  have "set ?t \<subseteq> set s" by (auto dest!: set_dropWhileD)
  with chars have c1: "list_all (\<lambda>c. ws c \<longrightarrow> c = CHR '' '') ?t"
    by (auto simp: list_all_iff)
  from nds have "noDoubleSpace ?m" by (rule noDoubleSpace_dropWhile)
  with ys have c2: "noDoubleSpace ?t" using noDoubleSpace_prefix [of ?t ys] by simp
  have c3: "?t = [] \<or> (\<not> ws (hd ?t) \<and> \<not> ws (last ?t))"
    using trimBy_ends [of ws s] by (simp only: t)
  from c1 c2 c3 show ?thesis unfolding t by blast
qed

lemma getTextContent_collapsed: "collapsedText (getTextContent el)"
proof -
  have ws: "isWhiteSpace (CHR '' '')" by (simp add: isWhiteSpace_def)
  from trimBy_collapsed [of isWhiteSpace "collapseRuns isWhiteSpace (textContent el)",
      OF collapseRuns_chars collapseRuns_noDoubleSpace [of isWhiteSpace, OF ws]]
  show ?thesis
    by (simp add: collapsedText_def getTextContent_def trim_def collapseWhitespace_def)
qed


text \<open>
  C1, as the claim states it, fails: for \<^verbatim>\<open><pre>a\nb</pre>\<close> the fenced block does not
  hold the text content \<^verbatim>\<open>a\nb\<close> as it is; the line feed has become a space.
\<close>

theorem pre_verbatim_counterexample:
  "convertElement (Element ''pre'' [] [Text ''a\<newline>b'']) 0
     \<lparr>preserveImages = Some False, preserveLinks = Some False, includeMetadata = None\<rparr>
   \<noteq> Inr (''\<newline>```\<newline>'' @ textContent (Element ''pre'' [] [Text ''a\<newline>b''])
          @ ''\<newline>```\<newline>\<newline>'')"
  by code_simp

text \<open>
  C1, amended. For every pre element the block has the shape: line feed, fence, line
  feed, the text, line feed, fence, two line feeds; the text is the flattened text of
  the element, the same as for headings and inline tags: the text content with every
  run of white space (line feeds included) collapsed to one space, and trimmed.
\<close>

theorem pre_block_shape:
  assumes "toLowerCase tn = ''pre''"
  shows "convertElement (Element tn attrs cs) depth options
           = Inr (''\<newline>```\<newline>'' @ getTextContent (Element tn attrs cs)
                  @ ''\<newline>```\<newline>\<newline>'') \<and>
         getTextContent (Element tn attrs cs)
           = trim (collapseWhitespace (textContent (Element tn attrs cs))) \<and>
         collapsedText (getTextContent (Element tn attrs cs))"
  using assms getTextContent_collapsed [of "Element tn attrs cs"]
  by (simp add: convertElement.simps(3) getTextContent_def)

theorem pre_block_shape_witness:
  "toLowerCase ''PRE'' = ''pre'' \<and>
   convertElement (Element ''PRE'' [] [Text ''a\<newline>  b '']) 0
       \<lparr>preserveImages = Some False, preserveLinks = Some False, includeMetadata = None\<rparr>
     = Inr ''\<newline>```\<newline>a b\<newline>```\<newline>\<newline>''"
proof -
  have t: "toLowerCase ''PRE'' = ''pre''" by code_simp
  have g: "getTextContent (Element ''PRE'' [] [Text ''a\<newline>  b '']) = ''a b''" by code_simp
  from pre_block_shape [OF t, of "[]" "[Text ''a\<newline>  b '']" 0
      "\<lparr>preserveImages = Some False, preserveLinks = Some False, includeMetadata = None\<rparr>"]
    t g
  show ?thesis by simp
qed

section \<open>Script, style and noscript subtrees\<close>

lemma sameOutsideScripts_isScriptLike:
  "sameOutsideScripts n m \<Longrightarrow> isScriptLike n = isScriptLike m"
  by (cases n; cases m) (simp_all add: isScriptLike_def matchesTag_def)

lemma removeFrom_children:
  assumes "list_all2 R cs cs'"
    and "\<And>z y. z \<in> set cs \<Longrightarrow> y \<in> set cs' \<Longrightarrow> R z y \<Longrightarrow>
           isScriptLike z = isScriptLike y \<and> (\<not> isScriptLike z \<longrightarrow> removeFrom z = removeFrom y)"
  shows "map removeFrom (filter (\<lambda>c. \<not> isScriptLike c) cs)
         = map removeFrom (filter (\<lambda>c. \<not> isScriptLike c) cs')"
  using assms
proof (induction rule: list_all2_induct)
  case Nil
  show ?case by simp
next
  case (Cons z zs y ys)
  from Cons.prems [of z y] Cons.hyps(1)
  have head: "isScriptLike z = isScriptLike y"
    and "\<not> isScriptLike z \<longrightarrow> removeFrom z = removeFrom y" by simp_all
  moreover have "map removeFrom (filter (\<lambda>c. \<not> isScriptLike c) zs)
         = map removeFrom (filter (\<lambda>c. \<not> isScriptLike c) ys)"
    by (rule Cons.IH) (rule Cons.prems, simp_all)
  ultimately show ?case by simp
qed

lemma sameOutsideScripts_removeFrom:
  "sameOutsideScripts n m \<Longrightarrow> \<not> isScriptLike n \<Longrightarrow> removeFrom n = removeFrom m"
proof (induction n m rule: sameOutsideScripts.induct)
  case (1 t a cs t' a' cs')
  from "1.prems" have eq: "t = t'" "a = a'" and kids: "list_all2 sameOutsideScripts cs cs'"
    by simp_all
  have "map removeFrom (filter (\<lambda>c. \<not> isScriptLike c) cs)
        = map removeFrom (filter (\<lambda>c. \<not> isScriptLike c) cs')"
  proof (rule removeFrom_children [OF kids])
    fix z y
    assume "z \<in> set cs" "y \<in> set cs'" "sameOutsideScripts z y"
    with "1.IH" [of z y] "1.prems"(2) sameOutsideScripts_isScriptLike [of z y]
    show "isScriptLike z = isScriptLike y \<and> (\<not> isScriptLike z \<longrightarrow> removeFrom z = removeFrom y)"
      by blast
  qed
  with eq show ?case by simp
qed simp_all

lemma removeScriptsAndStyles_same:
  assumes "list_all2 sameOutsideScripts (documentNodes d1) (documentNodes d2)"
  shows "removeScriptsAndStyles d1 = removeScriptsAndStyles d2"
proof -
  have "map removeFrom (filter (\<lambda>c. \<not> isScriptLike c) (documentNodes d1))
        = map removeFrom (filter (\<lambda>c. \<not> isScriptLike c) (documentNodes d2))"
  proof (rule removeFrom_children [OF assms])
    fix z y
    assume "sameOutsideScripts z y"
    with sameOutsideScripts_isScriptLike [of z y] sameOutsideScripts_removeFrom [of z y]
    show "isScriptLike z = isScriptLike y \<and> (\<not> isScriptLike z \<longrightarrow> removeFrom z = removeFrom y)"
      by blast
  qed
  then show ?thesis by (simp add: removeScriptsAndStyles_def)
qed

text \<open>
  C6. The output is independent of what is below any script, style or noscript element:
  two documents that differ only there (children replaced by anything or removed, at any
  nesting depth) are converted to the same string, for every options value and clock.
\<close>

theorem script_contents_never_reach_output:
  assumes "list_all2 sameOutsideScripts (documentNodes d1) (documentNodes d2)"
  shows "htmlToMdx now d1 options = htmlToMdx now d2 options"
  by (simp only: htmlToMdx_def removeScriptsAndStyles_same [OF assms])

theorem script_contents_never_reach_output_witness:
  "list_all2 sameOutsideScripts
     (documentNodes (Document [Element ''HTML'' [] [Element ''BODY'' []
        [Element ''P'' [] [Text ''Hi'', Element ''SCRIPT'' [] [Text ''alert(1)'']]]]]))
     (documentNodes (Document [Element ''HTML'' [] [Element ''BODY'' []
        [Element ''P'' [] [Text ''Hi'', Element ''SCRIPT'' [] []]]]])) \<and>
   htmlToMdx ''2026-01-01T00:00:00.000Z''
     (Document [Element ''HTML'' [] [Element ''BODY'' []
        [Element ''P'' [] [Text ''Hi'', Element ''SCRIPT'' [] [Text ''alert(1)'']]]]])
     \<lparr>preserveImages = None, preserveLinks = None, includeMetadata = None\<rparr>
   = htmlToMdx ''2026-01-01T00:00:00.000Z''
     (Document [Element ''HTML'' [] [Element ''BODY'' []
        [Element ''P'' [] [Text ''Hi'', Element ''SCRIPT'' [] []]]]])
     \<lparr>preserveImages = None, preserveLinks = None, includeMetadata = None\<rparr>"
proof -
  have same: "list_all2 sameOutsideScripts
     (documentNodes (Document [Element ''HTML'' [] [Element ''BODY'' []
        [Element ''P'' [] [Text ''Hi'', Element ''SCRIPT'' [] [Text ''alert(1)'']]]]]))
     (documentNodes (Document [Element ''HTML'' [] [Element ''BODY'' []
        [Element ''P'' [] [Text ''Hi'', Element ''SCRIPT'' [] []]]]]))"
    by code_simp
  from script_contents_never_reach_output [OF same] same show ?thesis by blast
qed

section \<open>Tables\<close>

lemma textContent_descendants:
  "textContent n = (case n of Comment d \<Rightarrow> d | _ \<Rightarrow> textData n @ spec_descendantText n)"
proof (induction n)
  case (Element t a cs)
  have "(case c of Comment _ \<Rightarrow> [] | _ \<Rightarrow> textContent c)
        = textData c @ concat (map textData (descendants c))" if "c \<in> set cs" for c
    using Element.IH [OF that]
    by (cases c) (simp_all add: textData_def spec_descendantText_def)
  then have "concat (map (\<lambda>c. case c of Comment _ \<Rightarrow> [] | _ \<Rightarrow> textContent c) cs)
        = concat (map (\<lambda>c. textData c @ concat (map textData (descendants c))) cs)"
    by (simp cong: map_cong)
  also have "\<dots> = concat (map textData (concat (map (\<lambda>c. c # descendants c) cs)))"
    by (induction cs) simp_all
  finally show ?case by (simp add: textData_def spec_descendantText_def)
next
  case (Text d)
  show ?case by (simp add: textData_def spec_descendantText_def)
next
  case (Comment d)
  show ?case by (simp add: textData_def)
qed

lemma textContent_element:
  "isElement n \<Longrightarrow> textContent n = spec_descendantText n"
  using textContent_descendants [of n]
  by (cases n) (simp_all add: isElement_def textData_def)

lemma spec_collapse_run:
  "isWhiteSpace c \<Longrightarrow>
   spec_collapse (c # cs) = CHR '' '' # spec_collapse (dropWhile isWhiteSpace cs)"
  by (induction cs arbitrary: c) simp_all

lemma spec_collapse_keep:
  "\<not> isWhiteSpace c \<Longrightarrow> spec_collapse (c # cs) = c # spec_collapse cs"
  by (cases cs) simp_all

lemma collapseWhitespace_spec: "collapseWhitespace s = spec_collapse s"
  unfolding collapseWhitespace_def
proof (induction isWhiteSpace s rule: collapseRuns.induct)
  case 1
  show ?case by simp
next
  case (2 c cs)
  then show ?case by (simp add: spec_collapse_run spec_collapse_keep)
qed

lemma spec_dropTrailing_all: "list_all isWhiteSpace xs \<Longrightarrow> spec_dropTrailing xs = []"
  by (cases xs) simp_all

lemma dropEnd_spec: "rev (dropWhile isWhiteSpace (rev xs)) = spec_dropTrailing xs"
proof (induction xs)
  case Nil
  show ?case by simp
next
  case (Cons c cs)
  show ?case
  proof (cases "list_all isWhiteSpace cs")
    case True
    then have "\<forall>x\<in>set (rev cs). isWhiteSpace x" by (simp add: list_all_iff)
    then have "dropWhile isWhiteSpace (rev cs @ [c]) = dropWhile isWhiteSpace [c]"
      by (simp add: dropWhile_append1 dropWhile_append)
    with True show ?thesis by (simp add: spec_dropTrailing_all)
  next
    case False
    then have "\<not> (\<forall>x\<in>set (rev cs). isWhiteSpace x)" by (simp add: list_all_iff)
    then have "dropWhile isWhiteSpace (rev cs @ [c]) = dropWhile isWhiteSpace (rev cs) @ [c]"
      by (simp add: dropWhile_append)
    with False Cons.IH show ?thesis by simp
  qed
qed

lemma trim_spec: "trim s = spec_trim s"
  by (simp only: trim_def trimBy_def spec_trim_def dropEnd_spec)

lemma escapePipes_spec: "escapePipes s = spec_escapePipes s"
  by (induction s) (simp_all add: escapePipes_def)

lemma getTextContent_spec: "isElement n \<Longrightarrow> getTextContent n = spec_flattenedText n"
  by (simp add: getTextContent_def spec_flattenedText_def textContent_element
      collapseWhitespace_spec trim_spec)

lemma cellText_spec: "isElement cell \<Longrightarrow> cellText cell = spec_cellText cell"
  by (simp add: cellText_def spec_cellText_def getTextContent_spec escapePipes_spec trim_spec)

lemma join_concat:
  "join sep texts = (case texts of [] \<Rightarrow> [] | t # ts \<Rightarrow> t @ concat (map (\<lambda>u. sep @ u) ts))"
proof (cases texts)
  case Nil
  then show ?thesis by simp
next
  case (Cons t ts)
  have "join sep (t # ts) = t @ concat (map (\<lambda>u. sep @ u) ts)"
    by (induction ts arbitrary: t) simp_all
  with Cons show ?thesis by simp
qed

lemma join_spec:
  "''| '' @ join '' | '' texts @ '' |\<newline>'' = spec_pipeLine texts"
  by (simp only: spec_pipeLine_def join_concat)

lemma cells_spec: "map cellText (querySelectorAll row [''td'', ''th''])
   = map spec_cellText (spec_cells row)"
  by (auto simp: querySelectorAll_def spec_cells_def intro: cellText_spec matchesTag_isElement)

lemma code_rowLine:
  "''| '' @ join '' | '' (map cellText (querySelectorAll row [''td'', ''th''])) @ '' |\<newline>''
   = spec_rowLine row"
  by (simp only: join_spec cells_spec spec_rowLine_def)

lemma code_separatorLine:
  "''| '' @ join '' | '' (map (\<lambda>_. ''---'') (map cellText (querySelectorAll row [''td'', ''th''])))
     @ '' |\<newline>''
   = spec_separatorLine row"
  by (simp add: join_spec spec_separatorLine_def map_replicate_const querySelectorAll_def
      spec_cells_def del: append.simps)

lemma header_cell_found:
  "querySelector row [''th''] \<noteq> None \<longleftrightarrow> spec_hasHeaderCell row"
proof -
  have th: "matchesTag [''th''] c \<Longrightarrow> matchesTag [''td'', ''th''] c" for c
    by (cases c) (simp_all add: matchesTag_def)
  have "querySelector row [''th''] \<noteq> None
        \<longleftrightarrow> filter (matchesTag [''th'']) (descendants row) \<noteq> []"
    by (simp add: querySelector_def querySelectorAll_def split: list.splits)
  also have "\<dots> \<longleftrightarrow> (\<exists>c \<in> set (descendants row). matchesTag [''th''] c)"
    by (simp add: filter_empty_conv)
  also have "\<dots> \<longleftrightarrow> spec_hasHeaderCell row"
    using th by (auto simp: spec_hasHeaderCell_def spec_cells_def list_ex_iff)
  finally show ?thesis .
qed

lemma convertTable_rows_step:
  "convertTable_rows (row # rest) rowIndex result
   = convertTable_rows rest (Suc rowIndex)
       (result @ spec_rowLine row
        @ (if rowIndex = 0 \<and> spec_hasHeaderCell row then spec_separatorLine row else []))"
proof -
  have "convertTable_rows (row # rest) rowIndex result
        = convertTable_rows rest (rowIndex + 1)
            (if rowIndex = 0 \<and> querySelector row [''th''] \<noteq> None
             then (result @ (''| '' @ join '' | '' (map cellText (querySelectorAll row [''td'', ''th''])) @ '' |\<newline>''))
                  @ (''| '' @ join '' | '' (map (\<lambda>_. ''---'') (map cellText (querySelectorAll row [''td'', ''th'']))) @ '' |\<newline>'')
             else result @ (''| '' @ join '' | '' (map cellText (querySelectorAll row [''td'', ''th''])) @ '' |\<newline>''))"
    by (simp add: Let_def)
  also have "\<dots> = convertTable_rows rest (Suc rowIndex)
       (result @ spec_rowLine row
        @ (if rowIndex = 0 \<and> spec_hasHeaderCell row then spec_separatorLine row else []))"
    unfolding code_rowLine code_separatorLine header_cell_found by simp
  finally show ?thesis .
qed

lemma convertTable_rows_later:
  "0 < rowIndex \<Longrightarrow>
   convertTable_rows rows rowIndex result = result @ concat (map spec_rowLine rows)"
proof (induction rows arbitrary: rowIndex result)
  case Nil
  show ?case by simp
next
  case (Cons row rest)
  from Cons.prems have "rowIndex \<noteq> 0" by simp
  with Cons.IH [of "Suc rowIndex"] show ?case
    by (simp only: convertTable_rows_step) simp
qed

text \<open>
  C7. For every table element the output is the table as the specification words it:
  empty when the table has no tr row; otherwise a line feed, one pipe-delimited line per
  row of its flattened, escaped, trimmed cell texts, with a separator line of as many
  \<^verbatim>\<open>---\<close> cells as the first row has cells right after the first row exactly when that
  row has a th cell, and a closing line feed. Rows and cells are read as descendants at
  any depth, as \<^verbatim>\<open>querySelectorAll\<close> finds them.
\<close>

theorem convertTable_spec: "convertTable tableElement options = spec_table tableElement"
proof (cases "spec_rows tableElement")
  case Nil
  then show ?thesis
    by (simp add: convertTable_def spec_table_def spec_rows_def querySelectorAll_def)
next
  case (Cons first others)
  then have rows: "querySelectorAll tableElement [''tr''] = first # others"
    by (simp add: spec_rows_def querySelectorAll_def)
  have "convertTable_rows (first # others) 0 ''\<newline>''
        = ''\<newline>'' @ spec_rowLine first
          @ (if spec_hasHeaderCell first then spec_separatorLine first else [])
          @ concat (map spec_rowLine others)"
    by (simp only: convertTable_rows_step) (simp add: convertTable_rows_later)
  with Cons rows show ?thesis by (simp add: convertTable_def spec_table_def)
qed

theorem convertTable_spec_witness:
  "convertTable
     (Element ''TABLE'' []
        [Element ''TR'' []
           [Element ''TH'' [] [Text '' H  '', Element ''B'' [] [Text ''x'']],
            Element ''TH'' [] [Text ''a|b '']],
         Element ''TR'' [] [Element ''TD'' [] [Text ''V''], Element ''TD'' [] []]])
     \<lparr>preserveImages = None, preserveLinks = None, includeMetadata = None\<rparr>
   = ''\<newline>| H x | a'' @ [CHR 0x5C] @ ''|b |\<newline>| --- | --- |\<newline>| V |  |\<newline>\<newline>''"
proof -
  have "spec_table
     (Element ''TABLE'' []
        [Element ''TR'' []
           [Element ''TH'' [] [Text '' H  '', Element ''B'' [] [Text ''x'']],
            Element ''TH'' [] [Text ''a|b '']],
         Element ''TR'' [] [Element ''TD'' [] [Text ''V''], Element ''TD'' [] []]])
   = ''\<newline>| H x | a'' @ [CHR 0x5C] @ ''|b |\<newline>| --- | --- |\<newline>| V |  |\<newline>\<newline>''"
    by code_simp
  with convertTable_spec show ?thesis by (rule trans)
qed

section \<open>The clock\<close>

text \<open>
  C9. The converted string is a function of the clock value, the tree and the options
  alone: with the same clock value two conversions agree, and when
  \<^verbatim>\<open>includeMetadata\<close> is not set they agree for any two clock values, the date line of
  the front matter being the only use of the clock.
\<close>

theorem clock_only_in_metadata:
  assumes "now1 = now2 \<or> \<not> orFalse (includeMetadata options)"
  shows "htmlToMdx now1 parsed options = htmlToMdx now2 parsed options"
proof (cases "now1 = now2")
  case True
  then show ?thesis by simp
next
  case False
  with assms have off: "orFalse (includeMetadata options) = False" by simp
  show ?thesis unfolding htmlToMdx_def off if_False by (rule refl)
qed


theorem clock_only_in_metadata_witness:
  "(''2026-01-01T00:00:00.000Z'' = ''2027-05-05T12:00:00.000Z'' \<or>
      orFalse (includeMetadata
        \<lparr>preserveImages = None, preserveLinks = Some True, includeMetadata = None\<rparr>) = False) \<and>
   htmlToMdx ''2026-01-01T00:00:00.000Z''
     (Document [Element ''HTML'' [] [Element ''BODY'' [] [Element ''P'' [] [Text ''Hi'']]]])
     \<lparr>preserveImages = None, preserveLinks = Some True, includeMetadata = None\<rparr>
   = htmlToMdx ''2027-05-05T12:00:00.000Z''
     (Document [Element ''HTML'' [] [Element ''BODY'' [] [Element ''P'' [] [Text ''Hi'']]]])
     \<lparr>preserveImages = None, preserveLinks = Some True, includeMetadata = None\<rparr>"
proof -
  have off: "''2026-01-01T00:00:00.000Z'' = ''2027-05-05T12:00:00.000Z'' \<or>
      \<not> orFalse (includeMetadata
        \<lparr>preserveImages = None, preserveLinks = Some True, includeMetadata = None\<rparr>)"
    by (simp add: orFalse_def)
  from clock_only_in_metadata [OF off] off show ?thesis by simp
qed

end
